theory Spec2Isabelle
  imports Main "HOL-Library.Word" "HOL-Library.Sublist"
begin

section \<open>Change detection of the update notifier\<close>

text \<open>
  The script \<^verbatim>\<open>src/index.js\<close> exists in two versions that share every name: the first
  (lines 1-162) downloads pages with axios and cheerio, the second (lines 163-347) renders
  them with Playwright.  They differ in the retry loop of \<^verbatim>\<open>fetchPageContent\<close>, in its
  default budget, and in how \<^verbatim>\<open>checkForUpdates\<close> awaits the per-URL tasks
  (\<^verbatim>\<open>Promise.all\<close> against \<^verbatim>\<open>Promise.allSettled\<close>).  A \<open>variant\<close> tag selects the
  version wherever the two differ.
\<close>

datatype variant = Axios | Playwright

subsection \<open>Strings\<close>

text \<open>
  A JavaScript string is a sequence of UTF-16 code units: \<^verbatim>\<open>length\<close> counts them and
  \<^verbatim>\<open>substring\<close> cuts between them.  \<open>js\<close> embeds an ASCII literal.
\<close>

type_synonym jsstring = "16 word list"

definition js :: "string \<Rightarrow> jsstring" where
  "js s = map (\<lambda>c. of_nat (of_char c)) s"

subsection \<open>The outside world\<close>

text \<open>
  What one download attempt yields when it does not throw: \<^verbatim>\<open>{ content, title }\<close>.
\<close>

record pageData =
  content :: jsstring
  title :: jsstring

text \<open>
  What \<^verbatim>\<open>fetchPageContent\<close> hands back: the page data, \<^verbatim>\<open>null\<close>, or (second version,
  when the loop body never runs) \<^verbatim>\<open>undefined\<close>.
\<close>

datatype fetched = Fetched pageData | Null | Undefined

fun falsy :: "fetched \<Rightarrow> bool" where
  "falsy (Fetched pd) = False"
| "falsy Null = True"
| "falsy Undefined = True"

text \<open>One entry of the array returned by the line-diff library.\<close>

record change =
  "value" :: jsstring
  added :: bool
  removed :: bool

text \<open>Exceptions that travel through the script.\<close>

datatype exn =
  FsError jsstring     \<comment> \<open>a rejected \<^verbatim>\<open>fs\<close> call; the argument is \<^verbatim>\<open>error.code\<close>\<close>
  | URIError           \<comment> \<open>\<^verbatim>\<open>encodeURIComponent\<close> on an ill-formed string\<close>
  | SheetError         \<comment> \<open>the URL sheet could not be read\<close>

text \<open>
  The collaborators the script calls but does not define are parameters:
  \<^item> \<open>respond url n\<close> is the outcome of the \<open>n\<close>-th download attempt ever made for
    \<open>url\<close> (\<open>None\<close>: the attempt throws inside the \<^verbatim>\<open>try\<close>);
  \<^item> \<open>encodeURIComponent\<close> and \<open>diffLines\<close> are the built-in and the library function;
  \<^item> \<open>readFault\<close> and \<open>writeFault\<close> give the error code with which reading or writing a
    path is rejected, if it is;
  \<^item> \<open>getUrlsFromSheet\<close> is the column of the sheet, or the failure to obtain it.
\<close>

record env =
  respond :: "jsstring \<Rightarrow> nat \<Rightarrow> pageData option"
  encodeURIComponent :: "jsstring \<Rightarrow> exn + jsstring"
  diffLines :: "jsstring \<Rightarrow> jsstring \<Rightarrow> change list"
  readFault :: "jsstring \<rightharpoonup> jsstring"
  writeFault :: "jsstring \<rightharpoonup> jsstring"
  getUrlsFromSheet :: "exn + jsstring list"

text \<open>
  The mutable state: the files under the content directory, and how many download
  attempts have been made for each URL.
\<close>

record world =
  files :: "jsstring \<rightharpoonup> jsstring"
  requests :: "jsstring \<Rightarrow> nat"

definition ENOENT :: jsstring where
  "ENOENT = js ''ENOENT''"

definition contentDir :: jsstring where
  "contentDir = js ''contents''"

text \<open>
  Both file calls pass the encoding \<^verbatim>\<open>'utf-8'\<close>.  Encoding a string as UTF-8 replaces every
  code unit that is a surrogate without its partner by U+FFFD, and decoding the bytes
  gives back the string with these replacements.
\<close>

definition highSurrogate :: "16 word \<Rightarrow> bool" where
  "highSurrogate c \<longleftrightarrow> 0xD800 \<le> c \<and> c \<le> 0xDBFF"

definition lowSurrogate :: "16 word \<Rightarrow> bool" where
  "lowSurrogate c \<longleftrightarrow> 0xDC00 \<le> c \<and> c \<le> 0xDFFF"

fun toWellFormed :: "jsstring \<Rightarrow> jsstring" where
  "toWellFormed [] = []"
| "toWellFormed [c] = (if highSurrogate c \<or> lowSurrogate c then [0xFFFD] else [c])"
| "toWellFormed (c # d # cs) =
     (if highSurrogate c \<and> lowSurrogate d then c # d # toWellFormed cs
      else if highSurrogate c \<or> lowSurrogate c then 0xFFFD # toWellFormed (d # cs)
      else c # toWellFormed (d # cs))"

text \<open>
  \<open>files w path\<close> is the string last handed to the write of \<open>path\<close>, or for a file that was
  there before, a string with the file's bytes as its encoding.

  \<^verbatim>\<open>fs.readFile(path, 'utf-8')\<close>: a missing file is rejected with code \<^verbatim>\<open>ENOENT\<close>; otherwise
  the bytes are decoded.
\<close>

definition readFile :: "env \<Rightarrow> world \<Rightarrow> jsstring \<Rightarrow> exn + jsstring" where
  "readFile E w path =
     (case readFault E path of
        Some code \<Rightarrow> Inl (FsError code)
      | None \<Rightarrow> (case files w path of
                  None \<Rightarrow> Inl (FsError ENOENT)
                | Some text \<Rightarrow> Inr (toWellFormed text)))"

text \<open>\<^verbatim>\<open>fs.writeFile(path, data, 'utf-8')\<close>: creates or replaces the file unless rejected.\<close>

definition writeFile :: "env \<Rightarrow> jsstring \<Rightarrow> jsstring \<Rightarrow> world \<Rightarrow> exn option \<times> world" where
  "writeFile E path data w =
     (case writeFault E path of
        Some code \<Rightarrow> (Some (FsError code), w)
      | None \<Rightarrow> (None, w\<lparr>files := (files w)(path \<mapsto> data)\<rparr>))"

text \<open>One download attempt: the body of the \<^verbatim>\<open>try\<close> block of \<^verbatim>\<open>fetchPageContent\<close>.\<close>

definition attempt :: "env \<Rightarrow> jsstring \<Rightarrow> world \<Rightarrow> pageData option \<times> world" where
  "attempt E url w =
     (respond E url (requests w url),
      w\<lparr>requests := (requests w)(url := Suc (requests w url))\<rparr>)"

subsection \<open>fetchPageContent\<close>

text \<open>
  First version (lines 41-56): recursion on the number of retries left, a natural number
  (the call sites pass none, or \<^verbatim>\<open>retries - 1\<close> where \<^verbatim>\<open>retries > 0\<close>).
\<close>

fun fetchPageContent :: "env \<Rightarrow> jsstring \<Rightarrow> nat \<Rightarrow> world \<Rightarrow> fetched \<times> world" where
  "fetchPageContent E url retries w =
     (case attempt E url w of
        (Some pd, w') \<Rightarrow> (Fetched pd, w')
      | (None, w') \<Rightarrow>
          (if retries > 0 then fetchPageContent E url (retries - 1) w'
           else (Null, w')))"

declare fetchPageContent.simps [simp del]

text \<open>
  Second version (lines 205-219): a \<^verbatim>\<open>for\<close> loop over \<open>attempt\<close> from 0 while
  \<open>attempt < retries\<close>; falling out of the loop returns \<^verbatim>\<open>undefined\<close>.
\<close>

function fetchLoop :: "env \<Rightarrow> jsstring \<Rightarrow> nat \<Rightarrow> nat \<Rightarrow> world \<Rightarrow> fetched \<times> world" where
  "fetchLoop E url retries i w =
     (if i < retries then
        (case attempt E url w of
           (Some pd, w') \<Rightarrow> (Fetched pd, w')
         | (None, w') \<Rightarrow>
             (if i = retries - 1 then (Null, w')
              else fetchLoop E url retries (i + 1) w'))
      else (Undefined, w))"
  by pat_completeness auto
termination
  by (relation "measure (\<lambda>(E, url, retries, i, w). retries - i)") auto

declare fetchLoop.simps [simp del]

definition fetchPageContent_pw :: "env \<Rightarrow> jsstring \<Rightarrow> nat \<Rightarrow> world \<Rightarrow> fetched \<times> world" where
  "fetchPageContent_pw E url retries w = fetchLoop E url retries 0 w"


text \<open>
  The call sites pass no budget, so the default applies: \<^verbatim>\<open>retries = 3\<close> in the first
  version, \<^verbatim>\<open>retries = 5\<close> in the second.
\<close>

definition fetchPage :: "variant \<Rightarrow> env \<Rightarrow> jsstring \<Rightarrow> world \<Rightarrow> fetched \<times> world" where
  "fetchPage v E url w =
     (case v of
        Axios \<Rightarrow> fetchPageContent E url 3 w
      | Playwright \<Rightarrow> fetchPageContent_pw E url 5 w)"

subsection \<open>checkIfNewOrUpdated\<close>

text \<open>
  The object \<^verbatim>\<open>checkIfNewOrUpdated\<close> resolves to.  A property the object literal does
  not mention reads as \<^verbatim>\<open>undefined\<close>: \<open>False\<close> for \<open>error\<close>, \<open>None\<close> for \<open>title\<close> and
  \<open>changes\<close>.
\<close>

record result =
  updated :: bool
  isNew :: bool
  error :: bool
  title :: "jsstring option"
  changes :: "change list option"

definition lastContentFile :: "jsstring \<Rightarrow> jsstring" where
  "lastContentFile enc = contentDir @ js ''/'' @ enc @ js ''.txt''"

text \<open>Lines 78-83 (241-246): compare, write the new baseline, diff.\<close>

definition compareAndStore ::
  "env \<Rightarrow> jsstring \<Rightarrow> pageData \<Rightarrow> jsstring \<Rightarrow> bool \<Rightarrow> world \<Rightarrow> (exn + result) \<times> world" where
  "compareAndStore E file pd lastContent new w =
     (let newContent = content pd; newTitle = pageData.title pd in
      if newContent \<noteq> lastContent then
        (case writeFile E file newContent w of
           (Some e, w') \<Rightarrow> (Inl e, w')
         | (None, w') \<Rightarrow>
             (Inr \<lparr>updated = True, isNew = new, error = False, title = Some newTitle,
                   changes = Some (filter (\<lambda>change. added change \<or> removed change)
                                     (diffLines E lastContent newContent))\<rparr>, w'))
      else (Inr \<lparr>updated = False, isNew = new, error = False, title = None,
                 changes = None\<rparr>, w))"

text \<open>
  Lines 58-84 (221-247).  \<^verbatim>\<open>!pageData\<close> holds for \<^verbatim>\<open>null\<close> and \<^verbatim>\<open>undefined\<close>.  The \<^verbatim>\<open>catch\<close>
  around the read turns code \<^verbatim>\<open>ENOENT\<close> into \<open>isNew = True\<close> with \<open>lastContent\<close> still the
  empty string, and throws anything else again.
\<close>

definition checkIfNewOrUpdated ::
  "variant \<Rightarrow> env \<Rightarrow> jsstring \<Rightarrow> world \<Rightarrow> (exn + result) \<times> world" where
  "checkIfNewOrUpdated v E url w =
     (case fetchPage v E url w of
        (Fetched pd, w') \<Rightarrow>
          (case encodeURIComponent E url of
             Inl e \<Rightarrow> (Inl e, w')
           | Inr enc \<Rightarrow>
               (case readFile E w' (lastContentFile enc) of
                  Inr text \<Rightarrow> compareAndStore E (lastContentFile enc) pd text False w'
                | Inl (FsError code) \<Rightarrow>
                    (if code = ENOENT
                     then compareAndStore E (lastContentFile enc) pd [] True w'
                     else (Inl (FsError code), w'))
                | Inl e \<Rightarrow> (Inl e, w')))
      | (_, w') \<Rightarrow>
          (Inr \<lparr>updated = False, isNew = False, error = True, title = None,
                changes = None\<rparr>, w'))"

text \<open>
  The spec's outcome of one URL, read off the result object by the branch order of
  \<^verbatim>\<open>checkForUpdates\<close> (lines 140-148): \<open>error\<close> first, then \<open>isNew\<close>, then \<open>updated\<close>.
\<close>

datatype outcome =
  Error
  | New "jsstring option"
  | Updated "jsstring option" "change list option"
  | Unchanged

definition outcome_of :: "result \<Rightarrow> outcome" where
  "outcome_of r =
     (if error r then Error
      else if isNew r then New (title r)
      else if updated r then Updated (title r) (changes r)
      else Unchanged)"

subsection \<open>trimString and the diff block of the update message\<close>

definition trimString :: "jsstring \<Rightarrow> nat \<Rightarrow> jsstring" where
  "trimString str maxLength =
     (if length str > maxLength then take maxLength str @ js ''...'' else str)"

text \<open>Line 101 (264): one line per change, joined with a newline.\<close>

definition changeLine :: "change \<Rightarrow> jsstring" where
  "changeLine change =
     (if added change then js ''+ '' @ trimString (value change) 100
      else if removed change then js ''- '' @ trimString (value change) 100
      else [])"

fun join :: "jsstring \<Rightarrow> jsstring list \<Rightarrow> jsstring" where
  "join sep [] = []"
| "join sep [x] = x"
| "join sep (x # y # ys) = x @ sep @ join sep (y # ys)"

definition diffBlock :: "change list \<Rightarrow> jsstring" where
  "diffBlock cs = join [0x0A] (map changeLine cs)"

subsection \<open>checkForUpdates\<close>

text \<open>
  The three arrays handed to the three \<^verbatim>\<open>send...Notification\<close> functions; an entry of
  \<open>updates\<close> is \<^verbatim>\<open>{ url, title, changes }\<close>, one of \<open>newUrls\<close> is \<^verbatim>\<open>{ url, title }\<close>.
\<close>

record report =
  updates :: "(jsstring \<times> jsstring option \<times> change list option) list"
  newUrls :: "(jsstring \<times> jsstring option) list"
  errors :: "jsstring list"

text \<open>
  The callback of \<^verbatim>\<open>urls.map\<close> (lines 138-149, 318-332).  Its promise is rejected, with
  nothing pushed, when \<^verbatim>\<open>checkIfNewOrUpdated\<close> throws.  Opening and closing the browser
  page in the second version is taken to succeed.
\<close>

definition task ::
  "variant \<Rightarrow> env \<Rightarrow> jsstring \<Rightarrow> report \<times> world \<Rightarrow> exn option \<times> report \<times> world" where
  "task v E url s =
     (case s of (rep, w) \<Rightarrow>
        (case checkIfNewOrUpdated v E url w of
           (Inl e, w') \<Rightarrow> (Some e, rep, w')
         | (Inr r, w') \<Rightarrow>
             (None,
              (if error r then rep\<lparr>errors := errors rep @ [url]\<rparr>
               else if isNew r then rep\<lparr>newUrls := newUrls rep @ [(url, title r)]\<rparr>
               else if updated r then
                 rep\<lparr>updates := updates rep @ [(url, title r, changes r)]\<rparr>
               else rep),
              w')))"

text \<open>
  The tasks are started together and interleave only at their awaits; they share the
  three arrays and the files.  The model runs them one after the other in the order of
  the list, which is one of the possible schedules, and records how each promise settles
  (\<open>None\<close>: fulfilled).
\<close>

fun runTasks ::
  "variant \<Rightarrow> env \<Rightarrow> jsstring list \<Rightarrow> report \<times> world \<Rightarrow> exn option list \<times> report \<times> world" where
  "runTasks v E [] s = ([], s)"
| "runTasks v E (url # urls) s =
     (case task v E url s of
        (settled, s') \<Rightarrow>
          (case runTasks v E urls s' of (rest, s'') \<Rightarrow> (settled # rest, s'')))"

text \<open>\<^verbatim>\<open>Promise.all\<close> rejects with the first rejection among its promises.\<close>

fun firstRejection :: "exn option list \<Rightarrow> exn option" where
  "firstRejection [] = None"
| "firstRejection (Some e # rest) = Some e"
| "firstRejection (None # rest) = firstRejection rest"

text \<open>
  Lines 131-155 (306-340).  \<open>Inr rep\<close>: the run reached the three notification calls with
  the arrays \<open>rep\<close>.  \<open>Inl e\<close>: \<^verbatim>\<open>checkForUpdates\<close> was rejected before them, which the
  caller only logs.  The first version awaits \<^verbatim>\<open>Promise.all\<close>, the second
  \<^verbatim>\<open>Promise.allSettled\<close>, which never rejects.
\<close>

definition checkForUpdates :: "variant \<Rightarrow> env \<Rightarrow> world \<Rightarrow> (exn + report) \<times> world" where
  "checkForUpdates v E w =
     (case getUrlsFromSheet E of
        Inl e \<Rightarrow> (Inl e, w)
      | Inr urls \<Rightarrow>
          (case runTasks v E urls (\<lparr>updates = [], newUrls = [], errors = []\<rparr>, w) of
             (settled, rep, w') \<Rightarrow>
               (case v of
                  Axios \<Rightarrow>
                    (case firstRejection settled of
                       Some e \<Rightarrow> (Inl e, w')
                     | None \<Rightarrow> (Inr rep, w'))
                | Playwright \<Rightarrow> (Inr rep, w'))))"

section \<open>Notions of the statements\<close>

subsection \<open>The retry budget\<close>

text \<open>
  \<open>attemptsMade E url w R budget k\<close>: the call that returned \<open>R\<close> from world \<open>w\<close> made
  exactly \<open>k + 1\<close> of its \<open>budget\<close> attempts; the first \<open>k\<close> failed; \<open>R\<close> carries the
  outcome of the last one, and that is a failure only if the budget is used up.  Nothing
  but the attempt counter of \<open>url\<close> changed.
\<close>

definition attemptsMade ::
  "env \<Rightarrow> jsstring \<Rightarrow> world \<Rightarrow> fetched \<times> world \<Rightarrow> nat \<Rightarrow> nat \<Rightarrow> bool" where
  "attemptsMade E url w R budget k \<longleftrightarrow>
     k < budget \<and>
     (\<forall>j<k. respond E url (requests w url + j) = None) \<and>
     files (snd R) = files w \<and>
     requests (snd R) = (requests w)(url := requests w url + (k + 1)) \<and>
     (case respond E url (requests w url + k) of
        Some pd \<Rightarrow> fst R = Fetched pd
      | None \<Rightarrow> k + 1 = budget \<and> fst R = Null)"

text \<open>The number of attempts the default budget allows in each version.\<close>

definition attemptBudget :: "variant \<Rightarrow> nat" where
  "attemptBudget v = (case v of Axios \<Rightarrow> 3 + 1 | Playwright \<Rightarrow> 5)"

subsection \<open>The line diff\<close>

text \<open>
  Modelled from the spec: the function \<^verbatim>\<open>diffLines\<close> of the package \<^verbatim>\<open>diff\<close>, which the
  script imports and whose code is not part of the sources.  The spec (4.2) describes it
  as the standard line-oriented longest-common-subsequence diff, a hunk being one
  contiguous run of lines, in the order of the old and new lines.  The filter that drops
  the unchanged hunks is the script's own (line 80) and is applied in the statements.
\<close>

datatype kind = Kept | Removed | Added

text \<open>
  Modelled from the spec: the lines of a text are the pieces between its newlines; the
  empty text has no line.
\<close>

fun splitOn :: "'a \<Rightarrow> 'a list \<Rightarrow> 'a list list" where
  "splitOn sep [] = [[]]"
| "splitOn sep (c # cs) =
     (if c = sep then [] # splitOn sep cs
      else (case splitOn sep cs of
              [] \<Rightarrow> [[c]]
            | l # ls \<Rightarrow> (c # l) # ls))"

definition linesOf :: "jsstring \<Rightarrow> jsstring list" where
  "linesOf text = (if text = [] then [] else splitOn 0x0A text)"

text \<open>Modelled from the spec: the length of a longest common subsequence.\<close>

fun lcsLength :: "'a list \<Rightarrow> 'a list \<Rightarrow> nat" where
  "lcsLength [] ys = 0"
| "lcsLength (x # xs) [] = 0"
| "lcsLength (x # xs) (y # ys) =
     (if x = y then Suc (lcsLength xs ys)
      else max (lcsLength xs (y # ys)) (lcsLength (x # xs) ys))"

text \<open>
  Modelled from the spec: the edit script that keeps a longest common subsequence, in the
  order of the lines; where removing and adding are equally good, the removal comes
  first.
\<close>

fun editScript :: "'a list \<Rightarrow> 'a list \<Rightarrow> (kind \<times> 'a) list" where
  "editScript [] ys = map (Pair Added) ys"
| "editScript (x # xs) [] = map (Pair Removed) (x # xs)"
| "editScript (x # xs) (y # ys) =
     (if x = y then (Kept, x) # editScript xs ys
      else if lcsLength (x # xs) ys \<le> lcsLength xs (y # ys)
      then (Removed, x) # editScript xs (y # ys)
      else (Added, y) # editScript (x # xs) ys)"

text \<open>Modelled from the spec: a hunk is a maximal run of lines of one kind.\<close>

fun hunksOf :: "(kind \<times> 'a) list \<Rightarrow> (kind \<times> 'a list) list" where
  "hunksOf [] = []"
| "hunksOf ((k, x) # es) =
     (case hunksOf es of
        [] \<Rightarrow> [(k, [x])]
      | (k', xs) # hs \<Rightarrow>
          if k = k' then (k, x # xs) # hs else (k, [x]) # (k', xs) # hs)"

text \<open>
  Modelled from the spec: the entry for a hunk carries its lines, joined by newlines, and
  the two flags the script's filter reads.
\<close>

definition changeOf :: "kind \<times> jsstring list \<Rightarrow> change" where
  "changeOf h = \<lparr>value = join [0x0A] (snd h), added = (fst h = Added),
                 removed = (fst h = Removed)\<rparr>"

definition lineHunks :: "jsstring \<Rightarrow> jsstring \<Rightarrow> (kind \<times> jsstring list) list" where
  "lineHunks old new = hunksOf (editScript (linesOf old) (linesOf new))"

definition diffLines_lcs :: "jsstring \<Rightarrow> jsstring \<Rightarrow> change list" where
  "diffLines_lcs old new = map changeOf (lineHunks old new)"

subsection \<open>Sample data\<close>

definition page0 :: pageData where
  "page0 = \<lparr>content = js ''Hello'', title = js ''T''\<rparr>"

text \<open>
  A world with no files and no attempts made, and an environment in which every download
  fails, no file operation is rejected, an URL of unreserved characters encodes to itself,
  and the diff of two texts is one unchanged, one removed and one added entry.
\<close>

definition world0 :: world where
  "world0 = \<lparr>files = Map.empty, requests = (\<lambda>url. 0)\<rparr>"

definition env0 :: env where
  "env0 = \<lparr>respond = (\<lambda>url n. None),
           encodeURIComponent = (\<lambda>url. Inr url),
           diffLines = (\<lambda>old new.
             [\<lparr>value = js ''same'', added = False, removed = False\<rparr>,
              \<lparr>value = old, added = False, removed = True\<rparr>,
              \<lparr>value = new, added = True, removed = False\<rparr>]),
           readFault = Map.empty,
           writeFault = Map.empty,
           getUrlsFromSheet = Inr []\<rparr>"

text \<open>The first two downloads of an URL fail, every later one succeeds with \<open>page0\<close>.\<close>

definition envFlaky :: env where
  "envFlaky = env0\<lparr>respond := (\<lambda>url n. if n < 2 then None else Some page0)\<rparr>"

text \<open>Every download succeeds with \<open>page0\<close>.\<close>

definition envHello :: env where
  "envHello = env0\<lparr>respond := (\<lambda>url n. Some page0)\<rparr>"

text \<open>Every download succeeds with a page whose body text is empty.\<close>

definition envEmpty :: env where
  "envEmpty = env0\<lparr>respond := (\<lambda>url n. Some \<lparr>content = [], title = js ''T''\<rparr>)\<rparr>"

text \<open>Every download succeeds with the page body \<^verbatim>\<open>x\uD800y\<close>, a lone high surrogate.\<close>

definition envSurrogate :: env where
  "envSurrogate =
     env0\<lparr>respond := (\<lambda>url n. Some \<lparr>content = [0x78, 0xD800, 0x79], title = js ''T''\<rparr>)\<rparr>"


text \<open>
  The sheet lists the URLs \<^verbatim>\<open>a\<close> and \<^verbatim>\<open>b\<close>; both download; reading the baseline file of
  \<^verbatim>\<open>a\<close> is rejected with \<^verbatim>\<open>EACCES\<close>.
\<close>

definition envDenied :: env where
  "envDenied = env0\<lparr>respond := (\<lambda>url n. Some page0),
                     readFault := [lastContentFile (js ''a'') \<mapsto> js ''EACCES''],
                     getUrlsFromSheet := Inr [js ''a'', js ''b'']\<rparr>"

text \<open>The baseline of \<^verbatim>\<open>a\<close> holds \<^verbatim>\<open>Old\<close>.\<close>

definition worldOld :: world where
  "worldOld = world0\<lparr>files := [lastContentFile (js ''a'') \<mapsto> js ''Old'']\<rparr>"

section \<open>Proofs\<close>

subsection \<open>Evaluating the sample data\<close>

lemma js_Nil: "js [] = []"
  by (simp add: js_def)

lemma js_Cons: "js (c # cs) = of_nat (of_char c) # js cs"
  by (simp add: js_def)

lemma env0_simps:
  "respond env0 = (\<lambda>url n. None)"
  "encodeURIComponent env0 = (\<lambda>url. Inr url)"
  "diffLines env0 = (\<lambda>old new.
     [\<lparr>value = js ''same'', added = False, removed = False\<rparr>,
      \<lparr>value = old, added = False, removed = True\<rparr>,
      \<lparr>value = new, added = True, removed = False\<rparr>])"
  "readFault env0 = Map.empty"
  "writeFault env0 = Map.empty"
  "getUrlsFromSheet env0 = Inr []"
  by (simp_all add: env0_def)

lemma envFlaky_simps:
  "respond envFlaky = (\<lambda>url n. if n < 2 then None else Some page0)"
  by (simp add: envFlaky_def)

lemma envHello_simps:
  "respond envHello = (\<lambda>url n. Some page0)"
  "encodeURIComponent envHello = (\<lambda>url. Inr url)"
  "diffLines envHello = diffLines env0"
  "readFault envHello = Map.empty"
  "writeFault envHello = Map.empty"
  by (simp_all add: envHello_def env0_simps)

lemma envEmpty_simps:
  "respond envEmpty = (\<lambda>url n. Some \<lparr>content = [], title = js ''T''\<rparr>)"
  "encodeURIComponent envEmpty = (\<lambda>url. Inr url)"
  "diffLines envEmpty = diffLines env0"
  "readFault envEmpty = Map.empty"
  "writeFault envEmpty = Map.empty"
  by (simp_all add: envEmpty_def env0_simps)

lemma envSurrogate_simps:
  "respond envSurrogate =
     (\<lambda>url n. Some \<lparr>content = [0x78, 0xD800, 0x79], title = js ''T''\<rparr>)"
  "encodeURIComponent envSurrogate = (\<lambda>url. Inr url)"
  "diffLines envSurrogate = diffLines env0"
  "readFault envSurrogate = Map.empty"
  "writeFault envSurrogate = Map.empty"
  by (simp_all add: envSurrogate_def env0_simps)


lemma envDenied_simps:
  "respond envDenied = (\<lambda>url n. Some page0)"
  "encodeURIComponent envDenied = (\<lambda>url. Inr url)"
  "diffLines envDenied = diffLines env0"
  "readFault envDenied = [lastContentFile (js ''a'') \<mapsto> js ''EACCES'']"
  "writeFault envDenied = Map.empty"
  "getUrlsFromSheet envDenied = Inr [js ''a'', js ''b'']"
  by (simp_all add: envDenied_def env0_simps)

lemma worldOld_simps:
  "files worldOld = [lastContentFile (js ''a'') \<mapsto> js ''Old'']"
  "requests worldOld = (\<lambda>url. 0)"
  by (simp_all add: worldOld_def world0_def)

lemma world0_simps:
  "files world0 = Map.empty"
  "requests world0 = (\<lambda>url. 0)"
  by (simp_all add: world0_def)

subsection \<open>Retry budget of fetchPageContent\<close>

lemma fetchPageContent_attempts:
  "\<exists>k. attemptsMade E url w (fetchPageContent E url retries w) (retries + 1) k"
proof (induction retries arbitrary: w)
  case 0
  have "attemptsMade E url w (fetchPageContent E url 0 w) (0 + 1) 0"
    by (simp add: attemptsMade_def fetchPageContent.simps [of E url 0 w] attempt_def
        split: option.splits)
  then show ?case by (rule exI)
next
  case (Suc r)
  let ?n = "requests w url"
  let ?w' = "w\<lparr>requests := (requests w)(url := Suc ?n)\<rparr>"
  show ?case
  proof (cases "respond E url ?n")
    case (Some pd)
    then have "attemptsMade E url w (fetchPageContent E url (Suc r) w) (Suc r + 1) 0"
      by (simp add: attemptsMade_def fetchPageContent.simps [of E url "Suc r" w] attempt_def)
    then show ?thesis by (rule exI)
  next
    case None
    have step: "fetchPageContent E url (Suc r) w = fetchPageContent E url r ?w'"
      using None by (simp add: fetchPageContent.simps [of E url "Suc r" w] attempt_def)
    from Suc.IH [of ?w'] obtain k
      where k: "attemptsMade E url ?w' (fetchPageContent E url r ?w') (r + 1) k" ..
    have before: "respond E url (?n + j) = None" if "j < Suc k" for j
    proof (cases j)
      case 0 with None show ?thesis by simp
    next
      case (Suc j')
      with that k show ?thesis by (simp add: attemptsMade_def)
    qed
    have "attemptsMade E url w (fetchPageContent E url (Suc r) w) (Suc r + 1) (Suc k)"
      using k before by (simp add: attemptsMade_def step split: option.splits)
    then show ?thesis by (rule exI)
  qed
qed

lemma fetchLoop_attempts:
  "i < retries \<Longrightarrow>
   \<exists>k. attemptsMade E url w (fetchLoop E url retries i w) (retries - i) k"
proof (induction "retries - i" arbitrary: i w)
  case 0
  then show ?case by simp
next
  case (Suc d)
  let ?n = "requests w url"
  let ?w' = "w\<lparr>requests := (requests w)(url := Suc ?n)\<rparr>"
  show ?case
  proof (cases "respond E url ?n")
    case (Some pd)
    with Suc.prems have "attemptsMade E url w (fetchLoop E url retries i w) (retries - i) 0"
      by (simp add: attemptsMade_def fetchLoop.simps [of E url retries i w] attempt_def)
    then show ?thesis by (rule exI)
  next
    case None
    show ?thesis
    proof (cases "i = retries - 1")
      case True
      have "fetchLoop E url retries i w = (Null, ?w')"
        using None True Suc.prems
        by (subst fetchLoop.simps) (simp add: attempt_def)
      with None True Suc.prems
      have "attemptsMade E url w (fetchLoop E url retries i w) (retries - i) 0"
        by (simp add: attemptsMade_def)
      then show ?thesis by (rule exI)
    next
      case False
      with Suc.prems have lt: "i + 1 < retries" by simp
      have step: "fetchLoop E url retries i w = fetchLoop E url retries (i + 1) ?w'"
        using None False Suc.prems
        by (simp add: fetchLoop.simps [of E url retries i w] attempt_def)
      from Suc.hyps(2) have "d = retries - (i + 1)" by simp
      from Suc.hyps(1) [OF this lt, of ?w'] obtain k
        where k: "attemptsMade E url ?w' (fetchLoop E url retries (i + 1) ?w')
                    (retries - (i + 1)) k" ..
      have before: "respond E url (?n + j) = None" if "j < Suc k" for j
      proof (cases j)
        case 0 with None show ?thesis by simp
      next
        case (Suc j')
        with that k show ?thesis by (simp add: attemptsMade_def)
      qed
      have "attemptsMade E url w (fetchLoop E url retries i w) (retries - i) (Suc k)"
        using k before lt by (auto simp add: attemptsMade_def step split: option.splits)
      then show ?thesis by (rule exI)
    qed
  qed
qed

text \<open>
  The loop of the second version makes \<open>retries\<close> attempts in all, not \<open>retries + 1\<close>: its
  parameter counts tries.  With \<open>retries = 0\<close> it makes none and returns \<^verbatim>\<open>undefined\<close>.
\<close>

lemma fetchPageContent_pw_attempts:
  "0 < retries \<Longrightarrow>
   \<exists>k. attemptsMade E url w (fetchPageContent_pw E url retries w) retries k"
  using fetchLoop_attempts [of 0 retries E url w] by (simp add: fetchPageContent_pw_def)

lemma fetchPageContent_pw_zero: "fetchPageContent_pw E url 0 w = (Undefined, w)"
  by (simp add: fetchPageContent_pw_def fetchLoop.simps [of E url 0 0 w])

text \<open>
  C4, as stated, fails for the loop of the second version (lines 205-219): its bound is
  the number of attempts.  With bound 2 and a page that would load at the third attempt,
  it returns \<^verbatim>\<open>null\<close> after two attempts and never makes the third.
\<close>

theorem fetchPageContent_pw_gives_up_early:
  "respond envFlaky (js ''a'') 0 = None \<and>
   respond envFlaky (js ''a'') 1 = None \<and>
   respond envFlaky (js ''a'') 2 = Some page0 \<and>
   fst (fetchPageContent_pw envFlaky (js ''a'') 2 world0) = Null \<and>
   requests (snd (fetchPageContent_pw envFlaky (js ''a'') 2 world0)) (js ''a'') = 2"
proof -
  from fetchPageContent_pw_attempts [of 2 envFlaky "js ''a''" world0] obtain k
    where "attemptsMade envFlaky (js ''a'') world0
             (fetchPageContent_pw envFlaky (js ''a'') 2 world0) 2 k"
    by auto
  then show ?thesis
    by (auto simp add: attemptsMade_def envFlaky_simps world0_simps split: if_splits)
qed

text \<open>
  C4, amended.  \<^verbatim>\<open>fetchPageContent(url, maxRetries)\<close> of the first version (lines 41-56)
  makes \<open>k + 1\<close> attempts for some \<open>k \<le> maxRetries\<close>, so at most \<open>maxRetries + 1\<close>.  The first
  \<open>k\<close> of them failed.  If attempt \<open>k + 1\<close> succeeds its page data is returned and no further
  attempt is made; if it fails then \<open>k = maxRetries\<close>, that is all \<open>maxRetries + 1\<close> attempts
  have failed, and the one value returned is \<^verbatim>\<open>null\<close>.  The loop of the second version
  (lines 205-219), called with a bound \<open>retries\<close> of at least 1, does the same within
  \<open>retries\<close> attempts in all: it returns \<^verbatim>\<open>null\<close> once all \<open>retries\<close> attempts have failed;
  called with the bound 0 it makes no attempt and returns \<^verbatim>\<open>undefined\<close>.  Neither touches
  the files.
\<close>

theorem fetchPageContent_attempt_bounds:
  "(\<exists>k\<le>maxRetries.
      (\<forall>j<k. respond E url (requests w url + j) = None) \<and>
      files (snd (fetchPageContent E url maxRetries w)) = files w \<and>
      requests (snd (fetchPageContent E url maxRetries w)) =
        (requests w)(url := requests w url + (k + 1)) \<and>
      (case respond E url (requests w url + k) of
         Some pd \<Rightarrow> fst (fetchPageContent E url maxRetries w) = Fetched pd
       | None \<Rightarrow> k = maxRetries \<and> fst (fetchPageContent E url maxRetries w) = Null)) \<and>
   (0 < retries \<longrightarrow>
      (\<exists>k<retries.
         (\<forall>j<k. respond E url (requests w url + j) = None) \<and>
         files (snd (fetchPageContent_pw E url retries w)) = files w \<and>
         requests (snd (fetchPageContent_pw E url retries w)) =
           (requests w)(url := requests w url + (k + 1)) \<and>
         (case respond E url (requests w url + k) of
            Some pd \<Rightarrow> fst (fetchPageContent_pw E url retries w) = Fetched pd
          | None \<Rightarrow> k + 1 = retries \<and> fst (fetchPageContent_pw E url retries w) = Null))) \<and>
   fetchPageContent_pw E url 0 w = (Undefined, w)"
proof -
  from fetchPageContent_attempts [of E url w maxRetries] obtain k
    where "attemptsMade E url w (fetchPageContent E url maxRetries w) (maxRetries + 1) k" ..
  then have "k \<le> maxRetries \<and>
     (\<forall>j<k. respond E url (requests w url + j) = None) \<and>
     files (snd (fetchPageContent E url maxRetries w)) = files w \<and>
     requests (snd (fetchPageContent E url maxRetries w)) =
       (requests w)(url := requests w url + (k + 1)) \<and>
     (case respond E url (requests w url + k) of
        Some pd \<Rightarrow> fst (fetchPageContent E url maxRetries w) = Fetched pd
      | None \<Rightarrow> k = maxRetries \<and> fst (fetchPageContent E url maxRetries w) = Null)"
    by (simp add: attemptsMade_def split: option.splits)
  then have first: "\<exists>k\<le>maxRetries.
     (\<forall>j<k. respond E url (requests w url + j) = None) \<and>
     files (snd (fetchPageContent E url maxRetries w)) = files w \<and>
     requests (snd (fetchPageContent E url maxRetries w)) =
       (requests w)(url := requests w url + (k + 1)) \<and>
     (case respond E url (requests w url + k) of
        Some pd \<Rightarrow> fst (fetchPageContent E url maxRetries w) = Fetched pd
      | None \<Rightarrow> k = maxRetries \<and> fst (fetchPageContent E url maxRetries w) = Null)"
    by blast
  have second: "\<exists>k<retries.
         (\<forall>j<k. respond E url (requests w url + j) = None) \<and>
         files (snd (fetchPageContent_pw E url retries w)) = files w \<and>
         requests (snd (fetchPageContent_pw E url retries w)) =
           (requests w)(url := requests w url + (k + 1)) \<and>
         (case respond E url (requests w url + k) of
            Some pd \<Rightarrow> fst (fetchPageContent_pw E url retries w) = Fetched pd
          | None \<Rightarrow> k + 1 = retries \<and> fst (fetchPageContent_pw E url retries w) = Null)"
    if "0 < retries"
  proof -
    from fetchPageContent_pw_attempts [OF that, of E url w] obtain k
      where "attemptsMade E url w (fetchPageContent_pw E url retries w) retries k" ..
    then have "k < retries \<and>
         (\<forall>j<k. respond E url (requests w url + j) = None) \<and>
         files (snd (fetchPageContent_pw E url retries w)) = files w \<and>
         requests (snd (fetchPageContent_pw E url retries w)) =
           (requests w)(url := requests w url + (k + 1)) \<and>
         (case respond E url (requests w url + k) of
            Some pd \<Rightarrow> fst (fetchPageContent_pw E url retries w) = Fetched pd
          | None \<Rightarrow> k + 1 = retries \<and> fst (fetchPageContent_pw E url retries w) = Null)"
      by (simp add: attemptsMade_def split: option.splits)
    then show ?thesis by blast
  qed
  from first second fetchPageContent_pw_zero [of E url w] show ?thesis
    by blast
qed

text \<open>
  The spec's scenario, failing twice and then succeeding: the first version with
  \<open>maxRetries = 2\<close> and the second with \<open>retries = 3\<close> return the page after three attempts;
  when every attempt fails, both return \<^verbatim>\<open>null\<close> after three attempts.
\<close>

theorem fetchPageContent_attempt_bounds_witness:
  "fst (fetchPageContent envFlaky (js ''a'') 2 world0) = Fetched page0 \<and>
   requests (snd (fetchPageContent envFlaky (js ''a'') 2 world0)) (js ''a'') = 3 \<and>
   fst (fetchPageContent env0 (js ''a'') 2 world0) = Null \<and>
   requests (snd (fetchPageContent env0 (js ''a'') 2 world0)) (js ''a'') = 3 \<and>
   (0::nat) < 3 \<and>
   fst (fetchPageContent_pw envFlaky (js ''a'') 3 world0) = Fetched page0 \<and>
   requests (snd (fetchPageContent_pw envFlaky (js ''a'') 3 world0)) (js ''a'') = 3 \<and>
   fst (fetchPageContent_pw env0 (js ''a'') 3 world0) = Null \<and>
   requests (snd (fetchPageContent_pw env0 (js ''a'') 3 world0)) (js ''a'') = 3"
  using fetchPageContent_attempt_bounds [of 2 envFlaky "js ''a''" world0 3]
        fetchPageContent_attempt_bounds [of 2 env0 "js ''a''" world0 3]
  apply (simp add: envFlaky_simps env0_simps world0_simps)
  apply (auto split: if_splits)
  done


subsection \<open>The download step of checkIfNewOrUpdated\<close>

lemma fetchPage_attempts:
  "\<exists>k. attemptsMade E url w (fetchPage v E url w) (attemptBudget v) k"
proof (cases v)
  case Axios
  with fetchPageContent_attempts [of E url w 3] show ?thesis
    by (simp add: fetchPage_def attemptBudget_def)
next
  case Playwright
  with fetchPageContent_pw_attempts [of 5 E url w] show ?thesis
    by (simp add: fetchPage_def attemptBudget_def)
qed

lemma fetchPage_files: "files (snd (fetchPage v E url w)) = files w"
  using fetchPage_attempts [of E url w v] by (auto simp: attemptsMade_def)

lemma fetchPage_files': "fetchPage v E url w = (f, w') \<Longrightarrow> files w' = files w"
  using fetchPage_files [of v E url w] by simp

lemma fetchPage_requests_other:
  "u \<noteq> url \<Longrightarrow> requests (snd (fetchPage v E url w)) u = requests w u"
  using fetchPage_attempts [of E url w v] by (auto simp: attemptsMade_def)

lemma fetchPage_not_Undefined: "fst (fetchPage v E url w) \<noteq> Undefined"
  using fetchPage_attempts [of E url w v]
  by (auto simp: attemptsMade_def split: option.splits)

lemma fetchPage_first:
  assumes "respond E url (requests w url) = Some pd"
  shows "fst (fetchPage v E url w) = Fetched pd"
    and "requests (snd (fetchPage v E url w)) = (requests w)(url := Suc (requests w url))"
proof -
  from fetchPage_attempts [of E url w v] obtain k
    where k: "attemptsMade E url w (fetchPage v E url w) (attemptBudget v) k" ..
  have "k = 0"
  proof (rule ccontr)
    assume "k \<noteq> 0"
    then have "0 < k" by simp
    with k have "respond E url (requests w url + 0) = None"
      unfolding attemptsMade_def by blast
    with assms show False by simp
  qed
  with k assms show "fst (fetchPage v E url w) = Fetched pd"
    and "requests (snd (fetchPage v E url w)) = (requests w)(url := Suc (requests w url))"
    by (simp_all add: attemptsMade_def)
qed

lemma fetchPage_exhausted:
  assumes "\<forall>j<attemptBudget v. respond E url (requests w url + j) = None"
  shows "fst (fetchPage v E url w) = Null"
    and "requests (snd (fetchPage v E url w)) =
           (requests w)(url := requests w url + attemptBudget v)"
proof -
  from fetchPage_attempts [of E url w v] obtain k
    where k: "attemptsMade E url w (fetchPage v E url w) (attemptBudget v) k" ..
  then have "k < attemptBudget v" by (simp add: attemptsMade_def)
  with assms have "respond E url (requests w url + k) = None" by simp
  with k show "fst (fetchPage v E url w) = Null"
    and "requests (snd (fetchPage v E url w)) =
           (requests w)(url := requests w url + attemptBudget v)"
    by (auto simp add: attemptsMade_def)
qed

lemma world_eqI: "files w = files w' \<Longrightarrow> requests w = requests w' \<Longrightarrow> w = (w' :: world)"
  by simp

lemma readFile_cong: "files w' = files w \<Longrightarrow> readFile E w' path = readFile E w path"
  by (simp add: readFile_def split: option.splits)

text \<open>What checkIfNewOrUpdated does once the download has succeeded.\<close>

lemma checkIfNewOrUpdated_fetched:
  assumes "fetchPage v E url w = (Fetched pd, w')"
    and "encodeURIComponent E url = Inr enc"
  shows "checkIfNewOrUpdated v E url w =
     (case readFile E w (lastContentFile enc) of
        Inr text \<Rightarrow> compareAndStore E (lastContentFile enc) pd text False w'
      | Inl (FsError code) \<Rightarrow>
          (if code = ENOENT
           then compareAndStore E (lastContentFile enc) pd [] True w'
           else (Inl (FsError code), w'))
      | Inl e \<Rightarrow> (Inl e, w'))"
  using assms readFile_cong [OF fetchPage_files' [OF assms(1)], of E "lastContentFile enc"]
  by (simp add: checkIfNewOrUpdated_def)

lemma checkIfNewOrUpdated_failed:
  assumes "falsy (fst (fetchPage v E url w))"
  shows "checkIfNewOrUpdated v E url w =
     (Inr \<lparr>updated = False, isNew = False, error = True, title = None, changes = None\<rparr>,
      snd (fetchPage v E url w))"
  using assms
  by (cases "fetchPage v E url w"; cases "fst (fetchPage v E url w)")
     (auto simp add: checkIfNewOrUpdated_def)

lemma fetchPage_succeeds_at_once:
  assumes "respond E url (requests w url) \<noteq> None"
  shows "fetchPage v E url w =
           (Fetched (the (respond E url (requests w url))),
            w\<lparr>requests := (requests w)(url := Suc (requests w url))\<rparr>)"
proof -
  from assms obtain pd where pd: "respond E url (requests w url) = Some pd" by auto
  have "fst (fetchPage v E url w) = Fetched pd"
    and "files (snd (fetchPage v E url w)) = files w"
    and "requests (snd (fetchPage v E url w)) = (requests w)(url := Suc (requests w url))"
    using fetchPage_first [OF pd] fetchPage_files by simp_all
  then show ?thesis
    using pd by (cases "fetchPage v E url w") simp
qed

lemma fetchPage_fails:
  assumes "\<forall>j<attemptBudget v. respond E url (requests w url + j) = None"
  shows "fetchPage v E url w =
           (Null, w\<lparr>requests := (requests w)(url := requests w url + attemptBudget v)\<rparr>)"
proof -
  have "fst (fetchPage v E url w) = Null"
    and "files (snd (fetchPage v E url w)) = files w"
    and "requests (snd (fetchPage v E url w)) =
           (requests w)(url := requests w url + attemptBudget v)"
    using fetchPage_exhausted [OF assms] fetchPage_files by simp_all
  then show ?thesis
    by (cases "fetchPage v E url w") simp
qed

lemmas eval_simps =
  checkIfNewOrUpdated_def fetchPage_succeeds_at_once fetchPage_fails readFile_def
  compareAndStore_def writeFile_def lastContentFile_def contentDir_def ENOENT_def
  env0_simps world0_simps page0_def js_Nil js_Cons Let_def task_def outcome_of_def
  highSurrogate_def lowSurrogate_def

subsection \<open>Comparing with the baseline\<close>

lemma compareAndStore_same:
  "content pd = old \<Longrightarrow>
   compareAndStore E file pd old new w =
     (Inr \<lparr>updated = False, isNew = new, error = False, title = None, changes = None\<rparr>, w)"
  by (simp add: compareAndStore_def Let_def)

lemma compareAndStore_differs:
  "content pd \<noteq> old \<Longrightarrow> writeFault E file = None \<Longrightarrow>
   compareAndStore E file pd old new w =
     (Inr \<lparr>updated = True, isNew = new, error = False, title = Some (pageData.title pd),
           changes = Some (filter (\<lambda>change. added change \<or> removed change)
                             (diffLines E old (content pd)))\<rparr>,
      w\<lparr>files := (files w)(file \<mapsto> content pd)\<rparr>)"
  by (simp add: compareAndStore_def writeFile_def Let_def)

lemma compareAndStore_rejected:
  "content pd \<noteq> old \<Longrightarrow> writeFault E file = Some code \<Longrightarrow>
   compareAndStore E file pd old new w = (Inl (FsError code), w)"
  by (simp add: compareAndStore_def writeFile_def Let_def)

text \<open>
  A first observation with a non-empty body: the result classifies as New with the
  fetched title, and the fetched content becomes the baseline.
\<close>

lemma new_url_nonempty:
  assumes "fetchPage v E url w = (Fetched pd, w')"
    and "encodeURIComponent E url = Inr enc"
    and "readFile E w (lastContentFile enc) = Inl (FsError ENOENT)"
    and "content pd \<noteq> []"
    and "writeFault E (lastContentFile enc) = None"
  shows "\<exists>r. checkIfNewOrUpdated v E url w =
               (Inr r, w'\<lparr>files := (files w)(lastContentFile enc \<mapsto> content pd)\<rparr>) \<and>
             outcome_of r = New (Some (pageData.title pd))"
  using assms fetchPage_files' [OF assms(1)]
  by (simp add: checkIfNewOrUpdated_fetched compareAndStore_differs outcome_of_def)

text \<open>
  C1.  The claim fails for a page whose body text is empty.  With no baseline file,
  \<open>lastContent\<close> stays the empty string, so the comparison of line 78 finds no difference:
  the result is \<^verbatim>\<open>{ updated: false, isNew: true }\<close> without a title, and nothing is
  written.  The next run finds no baseline again and reports the URL as new once more.
  Both versions of the script behave so.
\<close>

theorem empty_new_page_is_not_stored:
  "fst (checkIfNewOrUpdated Axios envEmpty (js ''a'') world0) =
     Inr \<lparr>updated = False, isNew = True, error = False, title = None, changes = None\<rparr> \<and>
   files (snd (checkIfNewOrUpdated Axios envEmpty (js ''a'') world0)) = Map.empty \<and>
   fst (checkIfNewOrUpdated Axios envEmpty (js ''a'')
          (snd (checkIfNewOrUpdated Axios envEmpty (js ''a'') world0))) =
     Inr \<lparr>updated = False, isNew = True, error = False, title = None, changes = None\<rparr> \<and>
   fst (checkIfNewOrUpdated Playwright envEmpty (js ''a'') world0) =
     Inr \<lparr>updated = False, isNew = True, error = False, title = None, changes = None\<rparr> \<and>
   files (snd (checkIfNewOrUpdated Playwright envEmpty (js ''a'') world0)) = Map.empty \<and>
   fst (checkIfNewOrUpdated Playwright envEmpty (js ''a'')
          (snd (checkIfNewOrUpdated Playwright envEmpty (js ''a'') world0))) =
     Inr \<lparr>updated = False, isNew = True, error = False, title = None, changes = None\<rparr> \<and>
   fst (snd (task Axios envEmpty (js ''a'')
          (\<lparr>updates = [], newUrls = [], errors = []\<rparr>, world0))) =
     \<lparr>updates = [], newUrls = [(js ''a'', None)], errors = []\<rparr>"
  by (simp add: eval_simps envEmpty_simps)

text \<open>
  C2.  When the download succeeds, the baseline file is read without error and the
  fetched content equals what it holds, \<^verbatim>\<open>checkIfNewOrUpdated\<close> returns
  \<^verbatim>\<open>{ updated: false, isNew: false }\<close>, which classifies as Unchanged; no file changes;
  and the task of \<^verbatim>\<open>checkForUpdates\<close> pushes nothing onto any of the three arrays.
\<close>

theorem unchanged_leaves_baseline:
  assumes "fetchPage v E url w = (Fetched pd, w')"
    and "encodeURIComponent E url = Inr enc"
    and "readFile E w (lastContentFile enc) = Inr old"
    and "content pd = old"
  shows "checkIfNewOrUpdated v E url w =
           (Inr \<lparr>updated = False, isNew = False, error = False, title = None,
                 changes = None\<rparr>, w') \<and>
         outcome_of \<lparr>updated = False, isNew = False, error = False, title = None,
                     changes = None\<rparr> = Unchanged \<and>
         files w' = files w \<and>
         task v E url (rep, w) = (None, rep, w')"
proof -
  have "checkIfNewOrUpdated v E url w =
           (Inr \<lparr>updated = False, isNew = False, error = False, title = None,
                 changes = None\<rparr>, w')"
    using assms by (simp add: checkIfNewOrUpdated_fetched compareAndStore_same)
  moreover have "files w' = files w"
    using assms(1) by (rule fetchPage_files')
  ultimately show ?thesis
    by (simp add: outcome_of_def task_def)
qed

theorem unchanged_leaves_baseline_witness:
  "fst (checkIfNewOrUpdated Axios envHello (js ''a'')
          (world0\<lparr>files := [lastContentFile (js ''a'') \<mapsto> js ''Hello'']\<rparr>)) =
     Inr \<lparr>updated = False, isNew = False, error = False, title = None, changes = None\<rparr> \<and>
   files (snd (checkIfNewOrUpdated Axios envHello (js ''a'')
          (world0\<lparr>files := [lastContentFile (js ''a'') \<mapsto> js ''Hello'']\<rparr>))) =
     [lastContentFile (js ''a'') \<mapsto> js ''Hello''] \<and>
   fst (snd (task Axios envHello (js ''a'')
          (\<lparr>updates = [], newUrls = [], errors = []\<rparr>,
           world0\<lparr>files := [lastContentFile (js ''a'') \<mapsto> js ''Hello'']\<rparr>))) =
     \<lparr>updates = [], newUrls = [], errors = []\<rparr>"
proof -
  let ?u = "js ''a''"
  let ?w = "world0\<lparr>files := [lastContentFile ?u \<mapsto> js ''Hello'']\<rparr>"
  let ?w' = "?w\<lparr>requests := (requests ?w)(?u := Suc (requests ?w ?u))\<rparr>"
  have f: "fetchPage Axios envHello ?u ?w = (Fetched page0, ?w')"
    by (simp add: fetchPage_succeeds_at_once envHello_simps)
  have enc: "encodeURIComponent envHello ?u = Inr ?u"
    by (simp add: envHello_simps)
  have rd: "readFile envHello ?w (lastContentFile ?u) = Inr (js ''Hello'')"
    by (simp add: readFile_def envHello_simps js_Cons js_Nil highSurrogate_def lowSurrogate_def)
  have c: "content page0 = js ''Hello''"
    by (simp add: page0_def)
  from unchanged_leaves_baseline [OF f enc rd c, of "\<lparr>updates = [], newUrls = [], errors = []\<rparr>"]
  show ?thesis by simp
qed

text \<open>
  C3.  When the download succeeds, the baseline file is read without error, the fetched
  content differs from it and the write is not rejected, \<^verbatim>\<open>checkIfNewOrUpdated\<close> returns
  \<^verbatim>\<open>{ updated: true, isNew: false, title, changes }\<close> where \<open>changes\<close> is the diff of
  (baseline, fetched content) restricted to the entries that are added or removed, so
  every returned entry is one of those; the baseline file now holds the fetched content;
  and the result classifies as Updated with that title and those changes.
\<close>

theorem changed_page_is_updated:
  assumes "fetchPage v E url w = (Fetched pd, w')"
    and "encodeURIComponent E url = Inr enc"
    and "readFile E w (lastContentFile enc) = Inr old"
    and "content pd \<noteq> old"
    and "writeFault E (lastContentFile enc) = None"
  shows "\<exists>hunks.
           hunks = filter (\<lambda>change. added change \<or> removed change)
                     (diffLines E old (content pd)) \<and>
           (\<forall>h\<in>set hunks. added h \<or> removed h) \<and>
           checkIfNewOrUpdated v E url w =
             (Inr \<lparr>updated = True, isNew = False, error = False,
                   title = Some (pageData.title pd), changes = Some hunks\<rparr>,
              w'\<lparr>files := (files w)(lastContentFile enc \<mapsto> content pd)\<rparr>) \<and>
           outcome_of \<lparr>updated = True, isNew = False, error = False,
                       title = Some (pageData.title pd), changes = Some hunks\<rparr> =
             Updated (Some (pageData.title pd)) (Some hunks)"
  using assms fetchPage_files' [OF assms(1)]
  by (simp add: checkIfNewOrUpdated_fetched compareAndStore_differs outcome_of_def)

theorem changed_page_is_updated_witness:
  "checkIfNewOrUpdated Playwright envHello (js ''a'') worldOld =
     (Inr \<lparr>updated = True, isNew = False, error = False, title = Some (js ''T''),
           changes = Some [\<lparr>value = js ''Old'', added = False, removed = True\<rparr>,
                           \<lparr>value = js ''Hello'', added = True, removed = False\<rparr>]\<rparr>,
      \<lparr>files = [lastContentFile (js ''a'') \<mapsto> js ''Hello''],
       requests = (\<lambda>url. 0)(js ''a'' := 1)\<rparr>)"
proof -
  let ?u = "js ''a''"
  let ?w' = "worldOld\<lparr>requests := (requests worldOld)(?u := Suc (requests worldOld ?u))\<rparr>"
  have f: "fetchPage Playwright envHello ?u worldOld = (Fetched page0, ?w')"
    by (simp add: fetchPage_succeeds_at_once envHello_simps)
  have enc: "encodeURIComponent envHello ?u = Inr ?u"
    by (simp add: envHello_simps)
  have rd: "readFile envHello worldOld (lastContentFile ?u) = Inr (js ''Old'')"
    by (simp add: readFile_def envHello_simps worldOld_simps js_Cons js_Nil highSurrogate_def
        lowSurrogate_def)
  have ne: "content page0 \<noteq> js ''Old''"
    by (simp add: page0_def js_Cons)
  have wr: "writeFault envHello (lastContentFile ?u) = None"
    by (simp add: envHello_simps)
  from changed_page_is_updated [OF f enc rd ne wr]
  show ?thesis
    by (simp add: envHello_simps env0_simps worldOld_simps page0_def worldOld_def world0_def)
qed

text \<open>
  C9.  When every attempt of the budget fails, \<^verbatim>\<open>checkIfNewOrUpdated\<close> returns
  \<^verbatim>\<open>{ updated: false, isNew: false, error: true }\<close>, which classifies as Error, and the
  files are as before.  Neither the files nor the read and write faults occur in the
  hypothesis: the store plays no part.
\<close>

theorem failed_fetch_is_error:
  assumes "\<forall>j<attemptBudget v. respond E url (requests w url + j) = None"
  shows "fst (checkIfNewOrUpdated v E url w) =
           Inr \<lparr>updated = False, isNew = False, error = True, title = None,
                changes = None\<rparr> \<and>
         outcome_of \<lparr>updated = False, isNew = False, error = True, title = None,
                     changes = None\<rparr> = Error \<and>
         files (snd (checkIfNewOrUpdated v E url w)) = files w"
  using fetchPage_exhausted(1) [OF assms] fetchPage_files [of v E url w]
  by (simp add: checkIfNewOrUpdated_failed outcome_of_def)

theorem failed_fetch_is_error_witness:
  "fst (checkIfNewOrUpdated Axios env0 (js ''a'') worldOld) =
     Inr \<lparr>updated = False, isNew = False, error = True, title = None, changes = None\<rparr> \<and>
   files (snd (checkIfNewOrUpdated Axios env0 (js ''a'') worldOld)) =
     [lastContentFile (js ''a'') \<mapsto> js ''Old'']"
proof -
  have "\<forall>j<attemptBudget Axios. respond env0 (js ''a'') (requests worldOld (js ''a'') + j) = None"
    by (simp add: env0_simps)
  from failed_fetch_is_error [OF this] show ?thesis
    by (simp add: worldOld_simps)
qed

text \<open>
  C10.  When the download succeeds and reading the baseline file is rejected with a code
  other than \<^verbatim>\<open>ENOENT\<close>, \<^verbatim>\<open>checkIfNewOrUpdated\<close> throws that error and changes no file,
  and the task of \<^verbatim>\<open>checkForUpdates\<close> is rejected with it, leaving the three arrays as
  they were.
\<close>

theorem read_error_is_rethrown:
  assumes "fetchPage v E url w = (Fetched pd, w')"
    and "encodeURIComponent E url = Inr enc"
    and "readFile E w (lastContentFile enc) = Inl (FsError code)"
    and "code \<noteq> ENOENT"
  shows "checkIfNewOrUpdated v E url w = (Inl (FsError code), w') \<and>
         files w' = files w \<and>
         task v E url (rep, w) = (Some (FsError code), rep, w')"
  using assms fetchPage_files' [OF assms(1)]
  by (simp add: checkIfNewOrUpdated_fetched task_def)

theorem read_error_is_rethrown_witness:
  "fst (checkIfNewOrUpdated Playwright envDenied (js ''a'') world0) =
     Inl (FsError (js ''EACCES'')) \<and>
   files (snd (checkIfNewOrUpdated Playwright envDenied (js ''a'') world0)) = Map.empty \<and>
   fst (task Playwright envDenied (js ''a'')
          (\<lparr>updates = [], newUrls = [], errors = []\<rparr>, world0)) =
     Some (FsError (js ''EACCES'')) \<and>
   fst (snd (task Playwright envDenied (js ''a'')
          (\<lparr>updates = [], newUrls = [], errors = []\<rparr>, world0))) =
     \<lparr>updates = [], newUrls = [], errors = []\<rparr>"
proof -
  let ?u = "js ''a''"
  let ?w' = "world0\<lparr>requests := (requests world0)(?u := Suc (requests world0 ?u))\<rparr>"
  have f: "fetchPage Playwright envDenied ?u world0 = (Fetched page0, ?w')"
    by (simp add: fetchPage_succeeds_at_once envDenied_simps)
  have enc: "encodeURIComponent envDenied ?u = Inr ?u"
    by (simp add: envDenied_simps)
  have rd: "readFile envDenied world0 (lastContentFile ?u) = Inl (FsError (js ''EACCES''))"
    by (simp add: readFile_def envDenied_simps)
  have ne: "js ''EACCES'' \<noteq> ENOENT"
    by (simp add: ENOENT_def js_Cons)
  from read_error_is_rethrown [OF f enc rd ne, of "\<lparr>updates = [], newUrls = [], errors = []\<rparr>"]
  show ?thesis
    by (simp add: world0_simps)
qed

text \<open>
  C6, as stated, fails.  With a baseline that differs from the page, the first of two
  calls returns an update, neither New nor Unchanged, and the second is Unchanged.  With
  no baseline and an empty page body, the second call is not Unchanged: it reports the
  URL as new again, because the first call wrote no baseline.
\<close>

theorem first_detect_may_be_updated:
  "fst (checkIfNewOrUpdated Axios envHello (js ''a'') worldOld) =
     Inr \<lparr>updated = True, isNew = False, error = False, title = Some (js ''T''),
          changes = Some [\<lparr>value = js ''Old'', added = False, removed = True\<rparr>,
                          \<lparr>value = js ''Hello'', added = True, removed = False\<rparr>]\<rparr> \<and>
   outcome_of \<lparr>updated = True, isNew = False, error = False, title = Some (js ''T''),
          changes = Some [\<lparr>value = js ''Old'', added = False, removed = True\<rparr>,
                          \<lparr>value = js ''Hello'', added = True, removed = False\<rparr>]\<rparr> =
     Updated (Some (js ''T''))
       (Some [\<lparr>value = js ''Old'', added = False, removed = True\<rparr>,
              \<lparr>value = js ''Hello'', added = True, removed = False\<rparr>]) \<and>
   fst (checkIfNewOrUpdated Axios envHello (js ''a'')
          (snd (checkIfNewOrUpdated Axios envHello (js ''a'') worldOld))) =
     Inr \<lparr>updated = False, isNew = False, error = False, title = None, changes = None\<rparr> \<and>
   fst (checkIfNewOrUpdated Axios envEmpty (js ''a'')
          (snd (checkIfNewOrUpdated Axios envEmpty (js ''a'') world0))) =
     Inr \<lparr>updated = False, isNew = True, error = False, title = None, changes = None\<rparr> \<and>
   outcome_of \<lparr>updated = False, isNew = True, error = False, title = None,
               changes = None\<rparr> = New None"
  by (simp add: eval_simps envHello_simps envEmpty_simps worldOld_simps)

text \<open>
  C6, amended.  Two calls in succession for an URL that \<^verbatim>\<open>encodeURIComponent\<close> accepts, whose
  downloads both succeed with the same content, where that content is well-formed UTF-16
  (it has no surrogate without its partner), no read or write of the baseline file is
  rejected, and the content is not empty or a baseline exists: the first call yields New
  when there was no baseline, Unchanged when the baseline read equals the content and
  Updated otherwise; after it the baseline reads as the content; and the second call
  yields Unchanged and changes no file.
\<close>

theorem second_detect_is_unchanged:
  assumes f1: "fetchPage v E url w = (Fetched pd1, w1)"
    and enc: "encodeURIComponent E url = Inr enc"
    and rd: "readFault E (lastContentFile enc) = None"
    and wr: "writeFault E (lastContentFile enc) = None"
    and wf: "toWellFormed (content pd1) = content pd1"
    and ne: "content pd1 \<noteq> [] \<or> files w (lastContentFile enc) \<noteq> None"
    and d1: "checkIfNewOrUpdated v E url w = (R1, w2)"
    and f2: "fetchPage v E url w2 = (Fetched pd2, w3)"
    and same: "content pd2 = content pd1"
  shows "(\<exists>r1. R1 = Inr r1 \<and>
            outcome_of r1 =
              (case readFile E w (lastContentFile enc) of
                 Inl e \<Rightarrow> New (Some (pageData.title pd1))
               | Inr old \<Rightarrow>
                   if content pd1 = old then Unchanged
                   else Updated (Some (pageData.title pd1))
                          (Some (filter (\<lambda>change. added change \<or> removed change)
                                   (diffLines E old (content pd1)))))) \<and>
         readFile E w2 (lastContentFile enc) = Inr (content pd1) \<and>
         checkIfNewOrUpdated v E url w2 =
           (Inr \<lparr>updated = False, isNew = False, error = False, title = None,
                 changes = None\<rparr>, w3) \<and>
         files w3 = files w2"
proof -
  let ?file = "lastContentFile enc"
  have fw1: "files w1 = files w" using f1 by (rule fetchPage_files')
  have first: "(\<exists>r1. R1 = Inr r1 \<and>
            outcome_of r1 =
              (case readFile E w ?file of
                 Inl e \<Rightarrow> New (Some (pageData.title pd1))
               | Inr old \<Rightarrow>
                   if content pd1 = old then Unchanged
                   else Updated (Some (pageData.title pd1))
                          (Some (filter (\<lambda>change. added change \<or> removed change)
                                   (diffLines E old (content pd1)))))) \<and>
         readFile E w2 ?file = Inr (content pd1)"
  proof (cases "files w ?file")
    case None
    define r where "r = \<lparr>updated = True, isNew = True, error = False,
                  title = Some (pageData.title pd1),
                  changes = Some (filter (\<lambda>change. added change \<or> removed change)
                                    (diffLines E [] (content pd1)))\<rparr>"
    from None rd have rf: "readFile E w ?file = Inl (FsError ENOENT)"
      by (simp add: readFile_def)
    from ne None have "content pd1 \<noteq> []" by simp
    with rf wr
    have "checkIfNewOrUpdated v E url w =
            (Inr r, w1\<lparr>files := (files w1)(?file \<mapsto> content pd1)\<rparr>)"
      by (simp add: checkIfNewOrUpdated_fetched [OF f1 enc] compareAndStore_differs r_def)
    with d1 have "R1 = Inr r" and "files w2 ?file = Some (content pd1)"
      by auto
    moreover have "outcome_of r = New (Some (pageData.title pd1))"
      by (simp add: outcome_of_def r_def)
    ultimately show ?thesis
      using rf rd wf by (simp add: readFile_def)
  next
    case (Some stored)
    define old where "old = toWellFormed stored"
    from Some rd have rf: "readFile E w ?file = Inr old"
      by (simp add: readFile_def old_def)
    show ?thesis
    proof (cases "content pd1 = old")
      case True
      define r where "r = \<lparr>updated = False, isNew = False, error = False, title = None,
                    changes = None\<rparr>"
      from True rf
      have "checkIfNewOrUpdated v E url w = (Inr r, w1)"
        by (simp add: checkIfNewOrUpdated_fetched [OF f1 enc] compareAndStore_same r_def)
      with d1 fw1 have "R1 = Inr r" and "files w2 = files w"
        by auto
      moreover have "outcome_of r = Unchanged"
        by (simp add: outcome_of_def r_def)
      moreover have "readFile E w2 ?file = readFile E w ?file"
        using \<open>files w2 = files w\<close> by (rule readFile_cong)
      ultimately show ?thesis
        using rf True by simp
    next
      case False
      define r where "r = \<lparr>updated = True, isNew = False, error = False,
                    title = Some (pageData.title pd1),
                    changes = Some (filter (\<lambda>change. added change \<or> removed change)
                                      (diffLines E old (content pd1)))\<rparr>"
      from False rf wr
      have "checkIfNewOrUpdated v E url w =
              (Inr r, w1\<lparr>files := (files w1)(?file \<mapsto> content pd1)\<rparr>)"
        by (simp add: checkIfNewOrUpdated_fetched [OF f1 enc] compareAndStore_differs r_def)
      with d1 have "R1 = Inr r" and "files w2 ?file = Some (content pd1)"
        by auto
      moreover have "outcome_of r =
          Updated (Some (pageData.title pd1))
            (Some (filter (\<lambda>change. added change \<or> removed change)
                     (diffLines E old (content pd1))))"
        by (simp add: outcome_of_def r_def)
      ultimately show ?thesis
        using rf rd wf False by (simp add: readFile_def)
    qed
  qed
  then have "readFile E w2 ?file = Inr (content pd1)"
    by simp
  with same have "checkIfNewOrUpdated v E url w2 =
           (Inr \<lparr>updated = False, isNew = False, error = False, title = None,
                 changes = None\<rparr>, w3)"
    by (simp add: checkIfNewOrUpdated_fetched [OF f2 enc] compareAndStore_same)
  moreover have "files w3 = files w2" using f2 by (rule fetchPage_files')
  ultimately show ?thesis using first by simp
qed

theorem second_detect_is_unchanged_witness:
  "\<exists>r1 w2 w3.
     checkIfNewOrUpdated Playwright envHello (js ''a'') world0 = (Inr r1, w2) \<and>
     outcome_of r1 = New (Some (js ''T'')) \<and>
     readFile envHello w2 (lastContentFile (js ''a'')) = Inr (js ''Hello'') \<and>
     checkIfNewOrUpdated Playwright envHello (js ''a'') w2 =
       (Inr \<lparr>updated = False, isNew = False, error = False, title = None,
             changes = None\<rparr>, w3) \<and>
     files w3 = files w2"
proof -
  let ?u = "js ''a''"
  let ?w1 = "world0\<lparr>requests := (requests world0)(?u := Suc (requests world0 ?u))\<rparr>"
  obtain R1 w2 where d1: "checkIfNewOrUpdated Playwright envHello ?u world0 = (R1, w2)"
    by (cases "checkIfNewOrUpdated Playwright envHello ?u world0")
  let ?w3 = "w2\<lparr>requests := (requests w2)(?u := Suc (requests w2 ?u))\<rparr>"
  have f1: "fetchPage Playwright envHello ?u world0 = (Fetched page0, ?w1)"
    by (simp add: fetchPage_succeeds_at_once envHello_simps)
  have enc: "encodeURIComponent envHello ?u = Inr ?u"
    by (simp add: envHello_simps)
  have rd: "readFault envHello (lastContentFile ?u) = None"
    and wr: "writeFault envHello (lastContentFile ?u) = None"
    by (simp_all add: envHello_simps)
  have wf: "toWellFormed (content page0) = content page0"
    by (simp add: page0_def js_Cons js_Nil highSurrogate_def lowSurrogate_def)
  have ne: "content page0 \<noteq> [] \<or> files world0 (lastContentFile ?u) \<noteq> None"
    by (simp add: page0_def js_Cons)
  have f2: "fetchPage Playwright envHello ?u w2 = (Fetched page0, ?w3)"
    by (simp add: fetchPage_succeeds_at_once envHello_simps)
  have r0: "readFile envHello world0 (lastContentFile ?u) = Inl (FsError ENOENT)"
    by (simp add: readFile_def envHello_simps world0_simps)
  from second_detect_is_unchanged [OF f1 enc rd wr wf ne d1 f2 refl] d1 r0
  show ?thesis
    by (auto simp add: page0_def)
qed

text \<open>
  Without the condition on the content the second call is not Unchanged: a content with a
  lone surrogate is read back with U+FFFD in its place and differs from the page again.
\<close>

lemma lone_surrogate_is_updated_again:
  "fst (checkIfNewOrUpdated Axios envSurrogate (js ''a'')
          (snd (checkIfNewOrUpdated Axios envSurrogate (js ''a'') world0))) =
     Inr \<lparr>updated = True, isNew = False, error = False, title = Some (js ''T''),
          changes = Some [\<lparr>value = [0x78, 0xFFFD, 0x79], added = False, removed = True\<rparr>,
                          \<lparr>value = [0x78, 0xD800, 0x79], added = True, removed = False\<rparr>]\<rparr>"
  by (simp add: eval_simps envSurrogate_simps)

subsection \<open>The run\<close>

text \<open>
  C5.  In the first version a rejected task rejects \<^verbatim>\<open>Promise.all\<close>, so
  \<^verbatim>\<open>checkForUpdates\<close> is rejected before any notification is sent: with the baseline of
  \<^verbatim>\<open>a\<close> unreadable, the new URL \<^verbatim>\<open>b\<close> is never reported.  The second version, with
  \<^verbatim>\<open>Promise.allSettled\<close>, reports \<^verbatim>\<open>b\<close> as new.
\<close>

theorem read_error_aborts_the_run:
  "fst (checkForUpdates Axios envDenied world0) = Inl (FsError (js ''EACCES'')) \<and>
   fst (checkForUpdates Playwright envDenied world0) =
     Inr \<lparr>updates = [], newUrls = [(js ''b'', Some (js ''T''))], errors = []\<rparr>"
  by (simp add: checkForUpdates_def eval_simps envDenied_simps)

text \<open>The second version never rejects once the sheet has been read.\<close>

lemma allSettled_never_rejects:
  "getUrlsFromSheet E = Inr urls \<Longrightarrow> \<exists>rep. fst (checkForUpdates Playwright E w) = Inr rep"
  by (simp add: checkForUpdates_def split: prod.splits)

subsection \<open>Truncation for display\<close>




subsection \<open>The line diff\<close>

lemma splitOn_nonempty: "splitOn sep s \<noteq> []"
  by (induction s) (auto split: list.splits)

lemma join_splitOn: "join [sep] (splitOn sep s) = s"
proof (induction s)
  case Nil
  show ?case by simp
next
  case (Cons c cs)
  obtain l ls where sp: "splitOn sep cs = l # ls"
    using splitOn_nonempty [of sep cs] by (cases "splitOn sep cs") auto
  with Cons show ?case
    by (cases ls) auto
qed

lemma join_linesOf: "join [0x0A] (linesOf text) = text"
  by (simp add: linesOf_def join_splitOn)

lemma linesOf_inject: "linesOf a = linesOf b \<Longrightarrow> a = b"
  by (metis join_linesOf)

lemma editScript_same: "editScript xs xs = map (Pair Kept) xs"
  by (induction xs) auto

lemma editScript_new: "map snd (filter (\<lambda>e. fst e \<noteq> Removed) (editScript xs ys)) = ys"
  by (induction xs ys rule: editScript.induct) (auto simp: comp_def)

lemma editScript_old: "map snd (filter (\<lambda>e. fst e \<noteq> Added) (editScript xs ys)) = xs"
  by (induction xs ys rule: editScript.induct) (auto simp: comp_def)

lemma editScript_kept_length:
  "length (filter (\<lambda>e. fst e = Kept) (editScript xs ys)) = lcsLength xs ys"
  by (induction xs ys rule: editScript.induct) auto

lemma hunksOf_lines:
  "concat (map snd (filter (\<lambda>h. P (fst h)) (hunksOf es))) =
   map snd (filter (\<lambda>e. P (fst e)) es)"
proof (induction es rule: hunksOf.induct)
  case 1
  show ?case by simp
next
  case (2 k x es)
  then show ?case
    by (cases "hunksOf es") (auto split: if_splits)
qed

lemma hunksOf_kinds: "fst ` set (hunksOf es) = fst ` set es"
proof (induction es rule: hunksOf.induct)
  case 1
  show ?case by simp
next
  case (2 k x es)
  show ?case
  proof (cases "hunksOf es")
    case Nil
    with 2 show ?thesis by simp
  next
    case (Cons h hs)
    obtain k' xs where h: "h = (k', xs)" by (cases h)
    from 2 Cons h have "fst ` set es = insert k' (fst ` set hs)" by simp
    with Cons h show ?thesis by simp
  qed
qed

lemma hunksOf_uniform:
  "hunksOf (map (Pair k) xs) = (if xs = [] then [] else [(k, xs)])"
  by (induction xs) (auto split: list.splits)

text \<open>
  The kept lines of the edit script are a longest common subsequence of the old and the
  new lines.
\<close>

lemma lcsLength_upper:
  "subseq zs xs \<Longrightarrow> subseq zs ys \<Longrightarrow> length zs \<le> lcsLength xs ys"
proof (induction xs ys arbitrary: zs rule: lcsLength.induct)
  case (1 ys)
  then show ?case by simp
next
  case (2 x xs)
  then show ?case by simp
next
  case (3 x xs y ys)
  show ?case
  proof (cases zs)
    case Nil
    then show ?thesis by simp
  next
    case (Cons z zs')
    show ?thesis
    proof (cases "x = y")
      case True
      show ?thesis
      proof (cases "z = x")
        case True
        with \<open>x = y\<close> Cons "3.prems" have "subseq zs' xs" and "subseq zs' ys" by simp_all
        with "3.IH"(1) [OF \<open>x = y\<close>] have "length zs' \<le> lcsLength xs ys" by simp
        with \<open>x = y\<close> Cons show ?thesis by simp
      next
        case False
        with \<open>x = y\<close> Cons "3.prems" have "subseq zs xs" and "subseq zs ys" by simp_all
        with "3.IH"(1) [OF \<open>x = y\<close>] have "length zs \<le> lcsLength xs ys" by simp
        with \<open>x = y\<close> show ?thesis by simp
      qed
    next
      case False
      show ?thesis
      proof (cases "z = x")
        case True
        with False Cons "3.prems" have "subseq zs (x # xs)" and "subseq zs ys" by simp_all
        with "3.IH"(3) [OF False] have "length zs \<le> lcsLength (x # xs) ys" by simp
        with False show ?thesis by simp
      next
        case zx: False
        with Cons "3.prems" have "subseq zs xs" and "subseq zs (y # ys)" by simp_all
        with "3.IH"(2) [OF False] have "length zs \<le> lcsLength xs (y # ys)" by simp
        with False show ?thesis by simp
      qed
    qed
  qed
qed

lemma editScript_kept_common:
  "subseq (map snd (filter (\<lambda>e. fst e = Kept) (editScript xs ys))) xs \<and>
   subseq (map snd (filter (\<lambda>e. fst e = Kept) (editScript xs ys))) ys"
  by (induction xs ys rule: editScript.induct) (auto simp: comp_def filter_map)

lemma changed_changeOf:
  "filter (\<lambda>change. added change \<or> removed change) (map changeOf hs) =
   map changeOf (filter (\<lambda>h. fst h \<noteq> Kept) hs)"
proof (induction hs)
  case Nil
  show ?case by simp
next
  case (Cons h hs)
  then show ?case
    by (cases "fst h") (simp_all add: changeOf_def)
qed

lemma diffLines_lcs_same:
  "filter (\<lambda>change. added change \<or> removed change) (diffLines_lcs old old) = []"
proof -
  have "fst ` set (lineHunks old old) \<subseteq> {Kept}"
    by (auto simp add: lineHunks_def hunksOf_kinds editScript_same)
  then have "filter (\<lambda>h. fst h \<noteq> Kept) (lineHunks old old) = []"
    by (auto simp add: filter_empty_conv)
  then show ?thesis
    by (simp add: diffLines_lcs_def changed_changeOf)
qed

lemma diffLines_lcs_from_empty:
  "diffLines_lcs [] new =
     (if new = [] then [] else [\<lparr>value = new, added = True, removed = False\<rparr>])"
proof (cases "new = []")
  case True
  then show ?thesis
    by (simp add: diffLines_lcs_def lineHunks_def linesOf_def)
next
  case False
  then have "linesOf new \<noteq> []"
    by (simp add: linesOf_def splitOn_nonempty)
  then have "lineHunks [] new = [(Added, linesOf new)]"
    by (simp add: lineHunks_def hunksOf_uniform linesOf_def)
  with False show ?thesis
    by (simp add: diffLines_lcs_def changeOf_def join_linesOf)
qed

lemma diffLines_lcs_differs:
  assumes "old \<noteq> new"
  shows "filter (\<lambda>change. added change \<or> removed change) (diffLines_lcs old new) \<noteq> []"
proof
  assume "filter (\<lambda>change. added change \<or> removed change) (diffLines_lcs old new) = []"
  then have "filter (\<lambda>h. fst h \<noteq> Kept) (lineHunks old new) = []"
    by (simp add: diffLines_lcs_def changed_changeOf)
  then have "fst ` set (lineHunks old new) \<subseteq> {Kept}"
    by (auto simp add: filter_empty_conv)
  then have kept: "\<forall>e\<in>set (editScript (linesOf old) (linesOf new)). fst e = Kept"
    by (auto simp add: lineHunks_def hunksOf_kinds)
  have "filter (\<lambda>e. fst e \<noteq> Removed) (editScript (linesOf old) (linesOf new)) =
        editScript (linesOf old) (linesOf new)"
    and "filter (\<lambda>e. fst e \<noteq> Added) (editScript (linesOf old) (linesOf new)) =
        editScript (linesOf old) (linesOf new)"
    using kept by (simp_all add: filter_id_conv)
  with editScript_new [of "linesOf old" "linesOf new"]
       editScript_old [of "linesOf old" "linesOf new"]
  have "linesOf old = linesOf new" by simp
  then have "old = new" by (rule linesOf_inject)
  with assms show False by simp
qed

lemma hunksOf_nonempty: "\<forall>h\<in>set (hunksOf es). snd h \<noteq> []"
proof (induction es rule: hunksOf.induct)
  case 1
  show ?case by simp
next
  case (2 k x es)
  then show ?case
    by (cases "hunksOf es") (auto split: if_splits)
qed

lemma hunksOf_runs: "distinct_adj (map fst (hunksOf es))"
proof (induction es rule: hunksOf.induct)
  case 1
  show ?case by simp
next
  case (2 k x es)
  show ?case
  proof (cases "hunksOf es")
    case Nil
    then show ?thesis by simp
  next
    case (Cons h hs)
    obtain k' xs where h: "h = (k', xs)" by (cases h)
    with 2 Cons show ?thesis by simp
  qed
qed

lemma lineHunks_kept:
  "concat (map snd (filter (\<lambda>h. fst h = Kept) (lineHunks old new))) =
   map snd (filter (\<lambda>e. fst e = Kept) (editScript (linesOf old) (linesOf new)))"
  using hunksOf_lines [of "\<lambda>k. k = Kept" "editScript (linesOf old) (linesOf new)"]
  by (simp add: lineHunks_def)

lemma lineHunks_kept_longest:
  assumes "subseq zs (linesOf old)" and "subseq zs (linesOf new)"
  shows "length zs \<le> length (concat (map snd (filter (\<lambda>h. fst h = Kept) (lineHunks old new))))"
proof -
  have "length (concat (map snd (filter (\<lambda>h. fst h = Kept) (lineHunks old new)))) =
        lcsLength (linesOf old) (linesOf new)"
    by (simp only: lineHunks_kept length_map editScript_kept_length)
  with lcsLength_upper [OF assms] show ?thesis by simp
qed

text \<open>
  C7.  For the line diff as the spec describes it, filtered as the script filters it: the
  diff of a text with itself is empty; the diff from the empty text is a single added
  hunk that holds the whole new text (no hunk when that is empty too); the diff of two
  different texts is not empty.  The filtered diff consists of the hunks that are not
  kept.  The hunks are non-empty runs of lines, neighbours being of different kinds.
  Going through all hunks in order, the lines of the kept and added ones are exactly the
  lines of the new text, those of the kept and removed ones exactly the lines of the old
  text.  The kept lines are a longest common subsequence of the old and the new lines: so
  the added and the removed hunks hold the lines outside of it, the differing lines, and
  no others.
\<close>

theorem diffLines_lcs_cases:
  "filter (\<lambda>change. added change \<or> removed change) (diffLines_lcs old old) = [] \<and>
   diffLines_lcs [] new =
     (if new = [] then [] else [\<lparr>value = new, added = True, removed = False\<rparr>]) \<and>
   (old \<noteq> new \<longrightarrow>
      filter (\<lambda>change. added change \<or> removed change) (diffLines_lcs old new) \<noteq> []) \<and>
   filter (\<lambda>change. added change \<or> removed change) (diffLines_lcs old new) =
     map changeOf (filter (\<lambda>h. fst h \<noteq> Kept) (lineHunks old new)) \<and>
   (\<forall>h\<in>set (lineHunks old new). snd h \<noteq> []) \<and>
   distinct_adj (map fst (lineHunks old new)) \<and>
   concat (map snd (filter (\<lambda>h. fst h \<noteq> Removed) (lineHunks old new))) = linesOf new \<and>
   concat (map snd (filter (\<lambda>h. fst h \<noteq> Added) (lineHunks old new))) = linesOf old \<and>
   subseq (concat (map snd (filter (\<lambda>h. fst h = Kept) (lineHunks old new)))) (linesOf old) \<and>
   subseq (concat (map snd (filter (\<lambda>h. fst h = Kept) (lineHunks old new)))) (linesOf new) \<and>
   (\<forall>zs. subseq zs (linesOf old) \<and> subseq zs (linesOf new) \<longrightarrow>
      length zs \<le>
        length (concat (map snd (filter (\<lambda>h. fst h = Kept) (lineHunks old new)))))"
proof -
  have "concat (map snd (filter (\<lambda>h. fst h \<noteq> Removed) (lineHunks old new))) = linesOf new"
    and "concat (map snd (filter (\<lambda>h. fst h \<noteq> Added) (lineHunks old new))) = linesOf old"
    using hunksOf_lines [of "\<lambda>k. k \<noteq> Removed" "editScript (linesOf old) (linesOf new)"]
      hunksOf_lines [of "\<lambda>k. k \<noteq> Added" "editScript (linesOf old) (linesOf new)"]
    by (simp_all add: lineHunks_def editScript_new editScript_old)
  moreover have "filter (\<lambda>change. added change \<or> removed change) (diffLines_lcs old new) =
     map changeOf (filter (\<lambda>h. fst h \<noteq> Kept) (lineHunks old new))"
    by (simp add: diffLines_lcs_def changed_changeOf)
  moreover have "\<forall>h\<in>set (lineHunks old new). snd h \<noteq> []"
    and "distinct_adj (map fst (lineHunks old new))"
    using hunksOf_nonempty [of "editScript (linesOf old) (linesOf new)"]
      hunksOf_runs [of "editScript (linesOf old) (linesOf new)"]
    by (simp_all add: lineHunks_def)
  moreover
  have "subseq (concat (map snd (filter (\<lambda>h. fst h = Kept) (lineHunks old new)))) (linesOf old)"
    and "subseq (concat (map snd (filter (\<lambda>h. fst h = Kept) (lineHunks old new)))) (linesOf new)"
    using editScript_kept_common [of "linesOf old" "linesOf new"]
    by (simp_all only: lineHunks_kept)
  ultimately show ?thesis
    using diffLines_lcs_same [of old] diffLines_lcs_from_empty [of new]
      diffLines_lcs_differs [of old new] lineHunks_kept_longest [of _ old new]
    by blast
qed

lemma linesOf_eval:
  "linesOf (c # cs) = splitOn 0x0A (c # cs)"
  by (simp add: linesOf_def)

text \<open>
  From \<^verbatim>\<open>a\nb\nc\<close> to \<^verbatim>\<open>x\nb\nc\<close> the lines \<^verbatim>\<open>b\<close> and \<^verbatim>\<open>c\<close> are kept and the filtered diff
  is the removed \<^verbatim>\<open>a\<close> and the added \<^verbatim>\<open>x\<close>.  The spec's scenario: from \<^verbatim>\<open>Hello\nWorld\<close> to
  \<^verbatim>\<open>Hello\nWorld\nFoo\<close> the filtered diff is one added hunk \<^verbatim>\<open>Foo\<close>.
\<close>

theorem diffLines_lcs_cases_witness:
  "js ''a'' @ [0x0A] @ js ''b'' @ [0x0A] @ js ''c'' \<noteq>
     js ''x'' @ [0x0A] @ js ''b'' @ [0x0A] @ js ''c'' \<and>
   filter (\<lambda>change. added change \<or> removed change)
     (diffLines_lcs (js ''a'' @ [0x0A] @ js ''b'' @ [0x0A] @ js ''c'')
        (js ''x'' @ [0x0A] @ js ''b'' @ [0x0A] @ js ''c'')) =
     [\<lparr>value = js ''a'', added = False, removed = True\<rparr>,
      \<lparr>value = js ''x'', added = True, removed = False\<rparr>] \<and>
   subseq [js ''b'', js ''c'']
     (linesOf (js ''a'' @ [0x0A] @ js ''b'' @ [0x0A] @ js ''c'')) \<and>
   subseq [js ''b'', js ''c'']
     (linesOf (js ''x'' @ [0x0A] @ js ''b'' @ [0x0A] @ js ''c'')) \<and>
   length [js ''b'', js ''c''] \<le>
     length (concat (map snd (filter (\<lambda>h. fst h = Kept)
       (lineHunks (js ''a'' @ [0x0A] @ js ''b'' @ [0x0A] @ js ''c'')
          (js ''x'' @ [0x0A] @ js ''b'' @ [0x0A] @ js ''c''))))) \<and>
   filter (\<lambda>change. added change \<or> removed change)
     (diffLines_lcs (js ''Hello'' @ [0x0A] @ js ''World'')
        (js ''Hello'' @ [0x0A] @ js ''World'' @ [0x0A] @ js ''Foo'')) =
     [\<lparr>value = js ''Foo'', added = True, removed = False\<rparr>]"
proof -
  let ?old = "js ''a'' @ [0x0A] @ js ''b'' @ [0x0A] @ js ''c''"
  let ?new = "js ''x'' @ [0x0A] @ js ''b'' @ [0x0A] @ js ''c''"
  have ne: "?old \<noteq> ?new"
    by (simp add: js_Cons js_Nil)
  have so: "subseq [js ''b'', js ''c''] (linesOf ?old)"
    and sn: "subseq [js ''b'', js ''c''] (linesOf ?new)"
    by (simp_all add: linesOf_eval js_Cons js_Nil)
  from diffLines_lcs_cases [of ?old ?new] so sn
  have "length [js ''b'', js ''c''] \<le>
     length (concat (map snd (filter (\<lambda>h. fst h = Kept) (lineHunks ?old ?new))))"
    by blast
  moreover
  from diffLines_lcs_cases [of ?old ?new]
  have "filter (\<lambda>change. added change \<or> removed change) (diffLines_lcs ?old ?new) =
     [\<lparr>value = js ''a'', added = False, removed = True\<rparr>,
      \<lparr>value = js ''x'', added = True, removed = False\<rparr>]"
    by (simp add: lineHunks_def linesOf_eval js_Cons js_Nil changeOf_def)
  moreover
  from diffLines_lcs_cases [of "js ''Hello'' @ [0x0A] @ js ''World''"
          "js ''Hello'' @ [0x0A] @ js ''World'' @ [0x0A] @ js ''Foo''"]
  have "filter (\<lambda>change. added change \<or> removed change)
     (diffLines_lcs (js ''Hello'' @ [0x0A] @ js ''World'')
        (js ''Hello'' @ [0x0A] @ js ''World'' @ [0x0A] @ js ''Foo'')) =
     [\<lparr>value = js ''Foo'', added = True, removed = False\<rparr>]"
    by (simp add: lineHunks_def linesOf_eval js_Cons js_Nil changeOf_def)
  ultimately show ?thesis
    using ne so sn by simp
qed

end
